theory Spec2Isabelle
  imports Complex_Main "HOL-Library.AList" "HOL-Library.Word"
begin

unbundle bit_operations_syntax

section \<open>Values shared by the model of network.py\<close>

text \<open>
  Hashes and raw headers are Python \<^verbatim>\<open>bytes\<close>. Times are Python numbers
  (\<^verbatim>\<open>time.time()\<close> is fractional); they are modelled as reals, with the
  integers embedded.
\<close>

type_synonym bytes = "8 word list"

datatype error =
    IndexOutOfRange int nat
  | BadHost string
  | BadPort
  | UnknownProtocol string
  | KeyError
  | AssertionError
  | AttributeError

definition ONE_MINUTE :: real where
  "ONE_MINUTE = 60"

definition ONE_DAY :: real where
  "ONE_DAY = 24 * 3600"

section \<open>The merkle root of a proof\<close>

text \<open>
  \<^verbatim>\<open>_root_from_proof(hash, branch, index)\<close>: the \<^verbatim>\<open>for\<close> loop over
  \<^verbatim>\<open>branch\<close>, returning the hash and the index it ends with. Python's
  \<^verbatim>\<open>index & 1\<close> and \<^verbatim>\<open>index >>= 1\<close> on unbounded integers are the bit
  operations of \<^typ>\<open>int\<close>. \<^verbatim>\<open>double_sha256\<close> comes from bitcoinx and is a
  parameter.
\<close>

fun root_from_proof_loop :: "(bytes \<Rightarrow> bytes) \<Rightarrow> bytes \<Rightarrow> bytes list \<Rightarrow> int \<Rightarrow> bytes \<times> int" where
  "root_from_proof_loop dsha h [] index = (h, index)"
| "root_from_proof_loop dsha h (elt # branch) index =
     root_from_proof_loop dsha
       (if index AND 1 \<noteq> 0 then dsha (elt @ h) else dsha (h @ elt))
       branch (drop_bit 1 index)"

definition root_from_proof :: "(bytes \<Rightarrow> bytes) \<Rightarrow> bytes \<Rightarrow> bytes list \<Rightarrow> int \<Rightarrow> error + bytes" where
  "root_from_proof dsha h branch index =
     (case root_from_proof_loop dsha h branch index of
        (h', index') \<Rightarrow>
          if index' \<noteq> 0 then Inl (IndexOutOfRange index' (length branch)) else Inr h')"

text \<open>
  The specification's \<^verbatim>\<open>merkle_root_from_branch\<close>, written from its words: one
  step per sibling, on the pair of the running leaf and the index, and failure when the
  index is not zero at the end.
\<close>

definition merkle_step_spec :: "(bytes \<Rightarrow> bytes) \<Rightarrow> bytes \<Rightarrow> bytes \<times> int \<Rightarrow> bytes \<times> int" where
  "merkle_step_spec dsha elt st =
     (if odd (snd st) then dsha (elt @ fst st) else dsha (fst st @ elt), snd st div 2)"

definition merkle_root_from_branch_spec :: "(bytes \<Rightarrow> bytes) \<Rightarrow> bytes \<Rightarrow> bytes list \<Rightarrow> int \<Rightarrow> bytes option" where
  "merkle_root_from_branch_spec dsha leaf branch index =
     (let st = fold (merkle_step_spec dsha) branch (leaf, index)
      in if snd st \<noteq> 0 then None else Some (fst st))"

section \<open>Server state\<close>

text \<open>
  \<^verbatim>\<open>class SVServerState\<close>. Attributes that \<^verbatim>\<open>setattr\<close> adds beyond the six
  of the constructor, or stores with a value of the other kind, are kept in
  \<open>other_attrs\<close>.
\<close>

datatype json_value = JNum real | JStr string

record SVServerState =
  banner :: string
  donation_address :: string
  last_try :: real
  last_good :: real
  last_blacklisted :: real
  retry_delay :: real
  other_attrs :: "(string \<times> json_value) list"

definition SVServerState_init :: SVServerState where
  "SVServerState_init =
     \<lparr>banner = [], donation_address = [], last_try = 0, last_good = 0,
      last_blacklisted = 0, retry_delay = 0, other_attrs = []\<rparr>"

definition is_blacklisted :: "SVServerState \<Rightarrow> real \<Rightarrow> bool" where
  "is_blacklisted s now = (last_blacklisted s > now - ONE_DAY)"

definition can_retry :: "SVServerState \<Rightarrow> real \<Rightarrow> bool" where
  "can_retry s now = (\<not> is_blacklisted s now \<and> last_try s + retry_delay s < now)"

text \<open>Python's \<^verbatim>\<open>int(x)\<close> on a number: truncation towards zero.\<close>

definition py_int :: "real \<Rightarrow> int" where
  "py_int x = (if 0 \<le> x then \<lfloor>x\<rfloor> else \<lceil>x\<rceil>)"

definition to_json :: "SVServerState \<Rightarrow> (string \<times> json_value) list" where
  "to_json s =
     [(''last_try'', JNum (of_int (py_int (last_try s)))),
      (''last_good'', JNum (of_int (py_int (last_good s)))),
      (''last_blacklisted'', JNum (of_int (py_int (last_blacklisted s))))]"

fun setattr :: "string \<Rightarrow> json_value \<Rightarrow> SVServerState \<Rightarrow> SVServerState" where
  "setattr attr (JNum x) s =
     (if attr = ''last_try'' then s\<lparr>last_try := x\<rparr>
      else if attr = ''last_good'' then s\<lparr>last_good := x\<rparr>
      else if attr = ''last_blacklisted'' then s\<lparr>last_blacklisted := x\<rparr>
      else if attr = ''retry_delay'' then s\<lparr>retry_delay := x\<rparr>
      else s\<lparr>other_attrs := AList.update attr (JNum x) (other_attrs s)\<rparr>)"
| "setattr attr (JStr t) s =
     (if attr = ''banner'' then s\<lparr>banner := t\<rparr>
      else if attr = ''donation_address'' then s\<lparr>donation_address := t\<rparr>
      else s\<lparr>other_attrs := AList.update attr (JStr t) (other_attrs s)\<rparr>)"

definition from_json :: "(string \<times> json_value) list \<Rightarrow> SVServerState" where
  "from_json dct = fold (\<lambda>item. setattr (fst item) (snd item)) dct SVServerState_init"

section \<open>Disconnecting and reconnecting\<close>

text \<open>
  \<^verbatim>\<open>class DisconnectSessionError\<close>: the constructor takes the keyword argument
  \<^verbatim>\<open>blacklist\<close> and assigns the attribute.
\<close>

record DisconnectSessionError =
  reason :: string
  blacklist :: bool

definition DisconnectSessionError_init :: "string \<Rightarrow> bool \<Rightarrow> DisconnectSessionError" where
  "DisconnectSessionError_init r b = \<lparr>reason = r, blacklist = False\<rparr>"

text \<open>
  \<^verbatim>\<open>SVSession.disconnect(reason, blacklist)\<close>, on the state of the session's server,
  at time \<open>now\<close>.
\<close>

definition disconnect :: "real \<Rightarrow> bool \<Rightarrow> SVServerState \<Rightarrow> SVServerState" where
  "disconnect now b s = (if b then s\<lparr>last_blacklisted := now\<rparr> else s)"

text \<open>
  How one call of \<^verbatim>\<open>SVServer.connect\<close> ends: the connector raises
  (\<^verbatim>\<open>OSError\<close>, before any session runs), or \<^verbatim>\<open>session.run()\<close> raises a
  \<^verbatim>\<open>DisconnectSessionError\<close>, raises one of \<^verbatim>\<open>RPCError\<close>,
  \<^verbatim>\<open>BatchError\<close>, \<^verbatim>\<open>TaskTimeout\<close>, or returns. The flag says whether the
  session was established first, which is where \<^verbatim>\<open>run\<close> resets
  \<^verbatim>\<open>retry_delay\<close> to 0.
\<close>

datatype session_end =
    ConnectorRaised
  | RunRaisedDisconnect bool DisconnectSessionError
  | RunRaisedRPC bool
  | RunReturned

definition established :: "session_end \<Rightarrow> bool" where
  "established e =
     (case e of ConnectorRaised \<Rightarrow> False
      | RunRaisedDisconnect est _ \<Rightarrow> est
      | RunRaisedRPC est \<Rightarrow> est
      | RunReturned \<Rightarrow> True)"

definition connect :: "real \<Rightarrow> session_end \<Rightarrow> real \<Rightarrow> SVServerState \<Rightarrow> SVServerState" where
  "connect now e end_now s =
     (let s1 = s\<lparr>retry_delay := max 10 (min (retry_delay s * 2 + 1) 600)\<rparr>;
          s2 = s1\<lparr>last_try := now\<rparr>;
          s3 = (if established e then s2\<lparr>retry_delay := 0\<rparr> else s2)
      in case e of
           ConnectorRaised \<Rightarrow> s3
         | RunRaisedDisconnect _ err \<Rightarrow> disconnect end_now (blacklist err) s3
         | RunRaisedRPC _ \<Rightarrow> disconnect end_now False s3
         | RunReturned \<Rightarrow> s3)"

text \<open>
  Consecutive calls of \<^verbatim>\<open>connect\<close> on one server, each given by the time it
  starts, how it ends and the time it ends.
\<close>

type_synonym attempt = "real \<times> session_end \<times> real"

definition connects :: "attempt list \<Rightarrow> SVServerState \<Rightarrow> SVServerState" where
  "connects atts s = fold (\<lambda>a. connect (fst a) (fst (snd a)) (snd (snd a))) atts s"

text \<open>The specification's recurrence, written from its words.\<close>

definition clamp :: "real \<Rightarrow> real \<Rightarrow> real \<Rightarrow> real" where
  "clamp x lo hi = max lo (min x hi)"

fun retry_recurrence :: "nat \<Rightarrow> real" where
  "retry_recurrence 0 = 0"
| "retry_recurrence (Suc k) = clamp (2 * retry_recurrence k + 1) 10 600"

section \<open>Requesting a chunk of headers\<close>

text \<open>
  The arguments \<^verbatim>\<open>SVSession._request_chunk(height, count)\<close> sends with
  \<^verbatim>\<open>blockchain.block.headers\<close>: \<^verbatim>\<open>(height, count, cp_height)\<close>, where
  \<^verbatim>\<open>cp_height\<close> starts as \<^verbatim>\<open>app_state.headers.checkpoint.height\<close> (here
  the first parameter) and is zeroed by the test that follows.
\<close>

definition request_chunk_args :: "int \<Rightarrow> int \<Rightarrow> int \<Rightarrow> int \<times> int \<times> int" where
  "request_chunk_args checkpoint_height height count =
     (let cp_height = checkpoint_height;
          cp_height = (if height + count \<ge> cp_height then 0 else cp_height)
      in (height, count, cp_height))"

section \<open>The interned servers\<close>

text \<open>
  \<^verbatim>\<open>class SVServer\<close> and its table \<^verbatim>\<open>all_servers\<close>, a dictionary from
  \<^verbatim>\<open>(host, port, protocol)\<close> to the server. The port argument is an
  \<^verbatim>\<open>int\<close> or a \<^verbatim>\<open>str\<close>.
\<close>

datatype port_arg = PortInt int | PortStr string

type_synonym server_key = "string \<times> int \<times> string"

record SVServer =
  host :: string
  port :: int
  protocol :: string
  state :: SVServerState

type_synonym all_servers = "(server_key \<times> SVServer) list"

text \<open>Python's \<^verbatim>\<open>sub in s\<close> on two strings: \<^verbatim>\<open>sub\<close> occurs in \<^verbatim>\<open>s\<close>.\<close>

fun startswith :: "string \<Rightarrow> string \<Rightarrow> bool" where
  "startswith s [] = True"
| "startswith [] (c # sub) = False"
| "startswith (d # s) (c # sub) = (d = c \<and> startswith s sub)"

fun str_in :: "string \<Rightarrow> string \<Rightarrow> bool" where
  "str_in sub [] = (sub = [])"
| "str_in sub (c # s) = (startswith (c # s) sub \<or> str_in sub s)"

text \<open>\<^verbatim>\<open>SVServer.__init__\<close>: the three checks in their order, then the insertion.\<close>

definition SVServer_init :: "all_servers \<Rightarrow> string \<Rightarrow> port_arg \<Rightarrow> string \<Rightarrow> error + (all_servers \<times> SVServer)" where
  "SVServer_init servers h p prot =
     (if h = [] then Inl (BadHost h)
      else case p of
        PortStr _ \<Rightarrow> Inl BadPort
      | PortInt n \<Rightarrow>
          if \<not> str_in prot ''st'' then Inl (UnknownProtocol prot)
          else if map_of servers (h, n, prot) \<noteq> None then Inl AssertionError
          else let srv = \<lparr>host = h, port = n, protocol = prot, state = SVServerState_init\<rparr>
               in Inr (AList.update (h, n, prot) srv servers, srv))"

text \<open>
  \<^verbatim>\<open>SVServer.unique\<close>. \<open>parse\<close> is Python's \<^verbatim>\<open>int(port)\<close> on a string,
  \<open>None\<close> where it raises \<^verbatim>\<open>ValueError\<close>. A key whose port is still a string
  is the key of no interned server.
\<close>

definition unique :: "(string \<Rightarrow> int option) \<Rightarrow> all_servers \<Rightarrow> string \<Rightarrow> port_arg \<Rightarrow> string \<Rightarrow> error + (all_servers \<times> SVServer)" where
  "unique parse servers h p prot =
     (let p' = (case p of
                  PortStr t \<Rightarrow> (case parse t of Some n \<Rightarrow> PortInt n | None \<Rightarrow> PortStr t)
                | PortInt n \<Rightarrow> PortInt n);
          obj = (case p' of PortInt n \<Rightarrow> map_of servers (h, n, prot) | PortStr _ \<Rightarrow> None)
      in case obj of
           Some srv \<Rightarrow> Inr (servers, srv)
         | None \<Rightarrow> SVServer_init servers h p' prot)"

section \<open>Sessions and the lagging check\<close>

text \<open>
  What the model needs of an \<^verbatim>\<open>SVSession\<close>: its server (by key), the height of
  its tip, and the negotiated protocol tuple. \<^verbatim>\<open>session.tip\<close> is
  \<^verbatim>\<open>None\<close> while \<^verbatim>\<open>_on_new_tip\<close> catches up, and then
  \<open>tip_height\<close> is \<open>None\<close>.
\<close>

record SVSession =
  server :: server_key
  tip_height :: "int option"
  ptuple :: "int list"

text \<open>Python's \<^verbatim>\<open>max(..., default=d)\<close>.\<close>

definition max_default :: "int \<Rightarrow> int list \<Rightarrow> int" where
  "max_default d xs = (case xs of [] \<Rightarrow> d | x # r \<Rightarrow> fold max r x)"

text \<open>
  The generator \<^verbatim>\<open>session.tip.height for session in self.sessions\<close>: reading
  \<^verbatim>\<open>.height\<close> of a tip that is \<^verbatim>\<open>None\<close> raises
  \<^verbatim>\<open>AttributeError\<close>.
\<close>

fun tip_heights :: "SVSession list \<Rightarrow> error + int list" where
  "tip_heights [] = Inr []"
| "tip_heights (s # ss) =
     (case tip_height s of
        None \<Rightarrow> Inl AttributeError
      | Some h \<Rightarrow> (case tip_heights ss of Inl e \<Rightarrow> Inl e | Inr hs \<Rightarrow> Inr (h # hs)))"

text \<open>
  The first loop of \<^verbatim>\<open>Network._maybe_switch_main_server\<close>, on the states of the
  servers (a store from the server's key to its state: several sessions may name one
  server). It reads \<^verbatim>\<open>session.tip.height\<close> again.
\<close>

fun mark_good :: "real \<Rightarrow> int \<Rightarrow> SVSession list \<Rightarrow> (server_key \<Rightarrow> SVServerState) \<Rightarrow> error + (server_key \<Rightarrow> SVServerState)" where
  "mark_good now max_height [] st = Inr st"
| "mark_good now max_height (s # ss) st =
     (case tip_height s of
        None \<Rightarrow> Inl AttributeError
      | Some h \<Rightarrow>
          mark_good now max_height ss
            (if h > max_height - 2
             then st(server s := (st (server s))\<lparr>last_good := now\<rparr>)
             else st))"

text \<open>
  What the function then does with the main server: \<open>SwitchMain\<close> carries the good
  servers \<^verbatim>\<open>random.choice\<close> picks from.
\<close>

datatype switch_action = NoGoodServers | MainIsGood | SwitchMain "server_key list" | RetainMain

text \<open>
  \<^verbatim>\<open>_maybe_switch_main_server\<close> at time \<open>now\<close>: the new states of the servers
  and what is done with the main server, or the exception of a missing tip.
\<close>

definition maybe_switch_main_server :: "real \<Rightarrow> bool \<Rightarrow> server_key option \<Rightarrow> SVSession list \<Rightarrow> (server_key \<Rightarrow> SVServerState) \<Rightarrow> error + ((server_key \<Rightarrow> SVServerState) \<times> switch_action)" where
  "maybe_switch_main_server now auto_connect main_server sessions st =
     (case tip_heights sessions of
        Inl e \<Rightarrow> Inl e
      | Inr heights \<Rightarrow>
          (let max_height = max_default 0 heights
           in case mark_good now max_height sessions st of
                Inl e \<Rightarrow> Inl e
              | Inr st' \<Rightarrow>
                  (let good_servers =
                         map server (filter (\<lambda>s. last_good (st' (server s)) > now - 60) sessions)
                   in Inr (st',
                           if good_servers = [] then NoGoodServers
                           else if main_server \<notin> set (map Some good_servers)
                           then (if auto_connect then SwitchMain good_servers else RetainMain)
                           else MainIsGood))))"

section \<open>Script hash subscriptions\<close>

text \<open>
  The class attributes \<^verbatim>\<open>SVSession._subs_by_wallet\<close> and
  \<^verbatim>\<open>SVSession._address_map\<close>, dictionaries kept in insertion order, and the
  requests sent so far. A wallet is its identity.
\<close>

type_synonym wallet = nat

datatype request = Subscribe string | Unsubscribe string

record subscriptions =
  subs_by_wallet :: "(wallet \<times> string list) list"
  address_map :: "(string \<times> string) list"
  sent :: "request list"

text \<open>Python's tuple comparison \<^verbatim>\<open>a < b\<close>.\<close>

fun tuple_less :: "int list \<Rightarrow> int list \<Rightarrow> bool" where
  "tuple_less [] [] = False"
| "tuple_less [] (y # ys) = True"
| "tuple_less (x # xs) [] = False"
| "tuple_less (x # xs) (y # ys) = (if x = y then tuple_less xs ys else x < y)"

text \<open>
  The loop of \<^verbatim>\<open>subscribe_to_pairs\<close>, on the wallet's list \<^verbatim>\<open>subs\<close>, the
  address map and the requests.
\<close>

fun subscribe_loop :: "(string \<times> string) list \<Rightarrow> string list \<times> (string \<times> string) list \<times> request list \<Rightarrow> string list \<times> (string \<times> string) list \<times> request list" where
  "subscribe_loop [] acc = acc"
| "subscribe_loop ((address, script_hash) # pairs) (subs, amap, out) =
     subscribe_loop pairs
       (subs @ [script_hash], AList.update script_hash address amap, out @ [Subscribe script_hash])"

text \<open>
  \<^verbatim>\<open>subscribe_to_pairs(wallet, pairs)\<close>. The list is changed in place, so the
  state is returned also when the final assertion fails;
  \<^verbatim>\<open>len(set(subs))\<close> is the length of the list without its duplicates.
\<close>

definition subscribe_to_pairs :: "wallet \<Rightarrow> (string \<times> string) list \<Rightarrow> subscriptions \<Rightarrow> (error + unit) \<times> subscriptions" where
  "subscribe_to_pairs w pairs st =
     (let sbw = (if map_of (subs_by_wallet st) w = None
                 then AList.update w [] (subs_by_wallet st) else subs_by_wallet st);
          subs = (case map_of sbw w of Some l \<Rightarrow> l | None \<Rightarrow> [])
      in case subscribe_loop pairs (subs, address_map st, sent st) of
           (subs', amap', out') \<Rightarrow>
             (if length (remdups subs') = length subs' then Inr () else Inl AssertionError,
              \<lparr>subs_by_wallet = AList.update w subs' sbw, address_map = amap', sent = out'\<rparr>))"

text \<open>
  \<^verbatim>\<open>_get_exclusive_set(wallet, subs)\<close>; the set is a list without duplicates
  (the order in which Python walks a set is not modelled).
\<close>

fun exclusive_loop :: "wallet \<Rightarrow> (wallet \<times> string list) list \<Rightarrow> string list \<Rightarrow> string list" where
  "exclusive_loop w [] subs_set = subs_set"
| "exclusive_loop w ((other_wallet, other_subs) # items) subs_set =
     (if other_wallet = w then exclusive_loop w items subs_set
      else exclusive_loop w items (filter (\<lambda>sh. sh \<notin> set other_subs) subs_set))"

definition get_exclusive_set :: "(wallet \<times> string list) list \<Rightarrow> wallet \<Rightarrow> string list \<Rightarrow> string list" where
  "get_exclusive_set sbw w subs = exclusive_loop w sbw (remdups subs)"

text \<open>
  The loop of \<^verbatim>\<open>unsubscribe_from_pairs\<close>; \<^verbatim>\<open>del self._address_map[script_hash]\<close>
  raises \<^verbatim>\<open>KeyError\<close> on a missing key, after the removal from \<^verbatim>\<open>subs\<close>.
\<close>

fun unsubscribe_loop :: "string list \<Rightarrow> (string \<times> string) list \<Rightarrow> string list \<times> (string \<times> string) list \<times> request list \<Rightarrow> (error + unit) \<times> string list \<times> (string \<times> string) list \<times> request list" where
  "unsubscribe_loop exclusive_subs [] acc = (Inr (), acc)"
| "unsubscribe_loop exclusive_subs ((address, script_hash) # pairs) (subs, amap, out) =
     (if script_hash \<notin> set exclusive_subs then unsubscribe_loop exclusive_subs pairs (subs, amap, out)
      else if script_hash \<notin> set subs then unsubscribe_loop exclusive_subs pairs (subs, amap, out)
      else if map_of amap script_hash = None then (Inl KeyError, remove1 script_hash subs, amap, out)
      else unsubscribe_loop exclusive_subs pairs
             (remove1 script_hash subs, AList.delete script_hash amap, out @ [Unsubscribe script_hash]))"

text \<open>\<^verbatim>\<open>unsubscribe_from_pairs(wallet, pairs)\<close> of the session \<open>self\<close>.\<close>

definition unsubscribe_from_pairs :: "SVSession \<Rightarrow> wallet \<Rightarrow> (string \<times> string) list \<Rightarrow> subscriptions \<Rightarrow> (error + unit) \<times> subscriptions" where
  "unsubscribe_from_pairs self w pairs st =
     (case map_of (subs_by_wallet st) w of
        None \<Rightarrow> (Inl KeyError, st)
      | Some subs \<Rightarrow>
          (case unsubscribe_loop (get_exclusive_set (subs_by_wallet st) w subs) pairs
                  (subs, address_map st, sent st) of
             (r, subs', amap', out') \<Rightarrow>
               (r, \<lparr>subs_by_wallet = AList.update w subs' (subs_by_wallet st),
                    address_map = amap', sent = out'\<rparr>)))"

text \<open>\<^verbatim>\<open>unsubscribe_wallet(wallet, session)\<close>; the session may be \<^verbatim>\<open>None\<close>.\<close>

definition unsubscribe_wallet :: "wallet \<Rightarrow> SVSession option \<Rightarrow> subscriptions \<Rightarrow> subscriptions" where
  "unsubscribe_wallet w session st =
     (case map_of (subs_by_wallet st) w of
        None \<Rightarrow> st
      | Some subs \<Rightarrow>
          (let st1 = st\<lparr>subs_by_wallet := AList.delete w (subs_by_wallet st)\<rparr>
           in case session of
                None \<Rightarrow> st1
              | Some sess \<Rightarrow>
                  (let exclusive_subs = get_exclusive_set (subs_by_wallet st1) w subs
                   in if exclusive_subs = [] then st1
                      else if tuple_less (ptuple sess) [1, 4, 2] then st1
                      else st1\<lparr>sent := sent st1 @ map Unsubscribe exclusive_subs\<rparr>)))"

text \<open>
  The wallet's list in \<^verbatim>\<open>_subs_by_wallet\<close>, empty for a wallet that is not
  registered (\<^verbatim>\<open>_subs_by_wallet.get(wallet, [])\<close>).
\<close>

definition wallet_subs :: "subscriptions \<Rightarrow> wallet \<Rightarrow> string list" where
  "wallet_subs st w = (case map_of (subs_by_wallet st) w of Some l \<Rightarrow> l | None \<Rightarrow> [])"

section \<open>The merkle root: the loop is the specified fold\<close>

lemma loop_spec:
  "root_from_proof_loop dsha h branch index = fold (merkle_step_spec dsha) branch (h, index)"
proof (induction branch arbitrary: h index)
  case Nil
  then show ?case by simp
next
  case (Cons elt branch)
  have b: "(index AND 1 \<noteq> 0) = odd index"
    by (simp add: and_one_eq mod_2_eq_odd)
  have d: "drop_bit (Suc 0) index = index div 2"
    by (simp add: drop_bit_eq_div)
  show ?case
    by (simp add: Cons.IH merkle_step_spec_def b d)
qed

lemma loop_index:
  "snd (root_from_proof_loop dsha h branch index) = drop_bit (length branch) index"
proof (induction branch arbitrary: h index)
  case Nil
  then show ?case by simp
next
  case (Cons elt branch)
  show ?case
    by (simp add: Cons.IH drop_bit_drop_bit)
qed

lemma drop_bit_nonzero:
  "(drop_bit n (k::int) \<noteq> 0) = (k < 0 \<or> 2 ^ n \<le> k)"
proof (cases "k < 0")
  case True
  have "(drop_bit n k < 0) = (k < 0)"
    by (rule drop_bit_negative_int_iff)
  with True have "drop_bit n k < 0" by blast
  then have "drop_bit n k \<noteq> 0" by (rule less_imp_neq)
  with True show ?thesis by simp
next
  case False
  then have k: "0 \<le> k" by simp
  have "(drop_bit n k = 0) = (k < 2 ^ n)"
    using k by (auto simp add: drop_bit_eq_div zdiv_eq_0_iff)
  with False show ?thesis by auto
qed

text \<open>
  C4. For every leaf, branch and index, \<^verbatim>\<open>_root_from_proof\<close> returns what the
  specified fold returns (odd index: \<open>dsha (elt @ leaf)\<close>, even index:
  \<open>dsha (leaf @ elt)\<close>, the index shifted right after each element), and it fails
  exactly when the index is not zero after the branch is exhausted, which is when the
  index is negative or at least \<open>2 ^ length branch\<close>. With an empty branch, index 0
  returns the leaf and index 3 fails.
\<close>

theorem root_from_proof_fold:
  "root_from_proof dsha leaf branch index =
     (case merkle_root_from_branch_spec dsha leaf branch index of
        None \<Rightarrow> Inl (IndexOutOfRange (drop_bit (length branch) index) (length branch))
      | Some r \<Rightarrow> Inr r)
   \<and> (isl (root_from_proof dsha leaf branch index) = (drop_bit (length branch) index \<noteq> 0))
   \<and> (isl (root_from_proof dsha leaf branch index) = (index < 0 \<or> 2 ^ length branch \<le> index))
   \<and> root_from_proof dsha leaf [] 0 = Inr leaf
   \<and> root_from_proof dsha leaf [] 3 = Inl (IndexOutOfRange 3 0)"
proof -
  obtain h' i' where l: "root_from_proof_loop dsha leaf branch index = (h', i')"
    by (cases "root_from_proof_loop dsha leaf branch index")
  have i: "i' = drop_bit (length branch) index"
    using loop_index [of dsha leaf branch index] l by simp
  have f: "fold (merkle_step_spec dsha) branch (leaf, index) = (h', i')"
    using loop_spec [of dsha leaf branch index] l by simp
  have 1: "root_from_proof dsha leaf branch index =
     (case merkle_root_from_branch_spec dsha leaf branch index of
        None \<Rightarrow> Inl (IndexOutOfRange (drop_bit (length branch) index) (length branch))
      | Some r \<Rightarrow> Inr r)"
    using i by (simp add: root_from_proof_def merkle_root_from_branch_spec_def l f)
  have 2: "isl (root_from_proof dsha leaf branch index) = (drop_bit (length branch) index \<noteq> 0)"
    using i by (simp add: root_from_proof_def l)
  have 3: "root_from_proof dsha leaf [] 0 = Inr leaf"
    by (simp add: root_from_proof_def)
  have 4: "root_from_proof dsha leaf [] 3 = Inl (IndexOutOfRange 3 0)"
    by (simp add: root_from_proof_def)
  show ?thesis
    using 1 2 3 4 drop_bit_nonzero [of "length branch" index] by simp
qed

section \<open>The retry delay\<close>

lemma retry_step:
  "\<not> established e \<Longrightarrow>
   retry_delay (connect now e end_now s) = clamp (2 * retry_delay s + 1) 10 600"
  by (cases e) (simp_all add: connect_def established_def disconnect_def clamp_def Let_def mult.commute)

lemma connects_retry:
  "retry_delay s = retry_recurrence j \<Longrightarrow> \<forall>a\<in>set atts. \<not> established (fst (snd a)) \<Longrightarrow>
   retry_delay (connects atts s) = retry_recurrence (j + length atts)"
proof (induction atts arbitrary: s j)
  case Nil
  then show ?case by (simp add: connects_def)
next
  case (Cons a atts)
  from Cons.prems have n: "\<not> established (fst (snd a))" by simp
  have 1: "retry_delay (connect (fst a) (fst (snd a)) (snd (snd a)) s) = retry_recurrence (Suc j)"
    using Cons.prems(1) by (simp add: retry_step [OF n])
  from Cons.prems have 2: "\<forall>b\<in>set atts. \<not> established (fst (snd b))" by simp
  from Cons.IH [OF 1 2] show ?case
    by (simp add: connects_def)
qed

text \<open>
  C7. Starting from \<^verbatim>\<open>retry_delay = 0\<close>, after \<open>k\<close> consecutive calls of
  \<^verbatim>\<open>connect\<close> that fail without the session being established (the connector
  raises, or \<^verbatim>\<open>run\<close> raises before its reset), the retry delay is the
  \<open>k\<close>-th iterate of \<open>r (k + 1) = clamp (2 * r k + 1) 10 600\<close>, \<open>r 0 = 0\<close>:
  10, 21, 43, 87, 175, 351, 600, 600.
\<close>

theorem retry_delay_recurrence:
  "(retry_delay s = 0 \<and> (\<forall>a\<in>set atts. \<not> established (fst (snd a))) \<longrightarrow>
      retry_delay (connects atts s) = retry_recurrence (length atts))
   \<and> map retry_recurrence [1, 2, 3, 4, 5, 6, 7, 8] = [10, 21, 43, 87, 175, 351, 600, 600]"
proof -
  have a: "retry_delay s = 0 \<and> (\<forall>a\<in>set atts. \<not> established (fst (snd a))) \<longrightarrow>
      retry_delay (connects atts s) = retry_recurrence (length atts)"
  proof
    assume h: "retry_delay s = 0 \<and> (\<forall>a\<in>set atts. \<not> established (fst (snd a)))"
    then have 1: "retry_delay s = retry_recurrence 0" by simp
    from h have 2: "\<forall>a\<in>set atts. \<not> established (fst (snd a))" by simp
    from connects_retry [OF 1 2] show "retry_delay (connects atts s) = retry_recurrence (length atts)"
      by simp
  qed
  have b: "map retry_recurrence [1, 2, 3, 4, 5, 6, 7, 8] = [10, 21, 43, 87, 175, 351, 600, 600]"
    by (simp add: eval_nat_numeral clamp_def)
  from a b show ?thesis by (rule conjI)
qed

theorem retry_delay_recurrence_witness:
  "retry_delay (connects
      [(100, ConnectorRaised, 100),
       (120, RunRaisedRPC False, 125),
       (150, RunRaisedDisconnect False (DisconnectSessionError_init ''bad tip'' True), 151)]
      SVServerState_init) = 43"
proof -
  let ?atts = "[(100, ConnectorRaised, 100),
       (120, RunRaisedRPC False, 125),
       (150, RunRaisedDisconnect False (DisconnectSessionError_init ''bad tip'' True), 151)]"
  have 1: "retry_delay SVServerState_init = 0"
    by (simp add: SVServerState_init_def)
  have 2: "\<forall>a\<in>set ?atts. \<not> established (fst (snd a))"
    by (simp add: established_def)
  have 3: "retry_recurrence (length ?atts) = 43"
    by (simp add: eval_nat_numeral clamp_def)
  from retry_delay_recurrence [where s = SVServerState_init and atts = ?atts] 1 2 3 show ?thesis
    by simp
qed

section \<open>Retrying and blacklisting\<close>

text \<open>
  C3. As amended: \<^verbatim>\<open>can_retry(now)\<close> holds exactly when the server is not
  blacklisted at \<open>now\<close> and \<open>last_try + retry_delay < now\<close>, strictly; at
  \<open>now = last_try + retry_delay\<close> it is false.
\<close>

theorem can_retry_strict:
  "can_retry s now = (\<not> is_blacklisted s now \<and> last_try s + retry_delay s < now)
   \<and> can_retry s now = (last_blacklisted s \<le> now - 86400 \<and> last_try s + retry_delay s < now)
   \<and> \<not> can_retry s (last_try s + retry_delay s)"
  by (auto simp add: can_retry_def is_blacklisted_def ONE_DAY_def)

text \<open>
  The claim as stated, with \<open>\<le>\<close>, fails for a server that is not blacklisted and
  whose delay ends exactly at \<open>now\<close>.
\<close>

theorem can_retry_counterexample:
  "\<not> (can_retry (SVServerState_init\<lparr>last_try := 99990, retry_delay := 10\<rparr>) 100000 =
        (\<not> is_blacklisted (SVServerState_init\<lparr>last_try := 99990, retry_delay := 10\<rparr>) 100000
         \<and> last_try (SVServerState_init\<lparr>last_try := 99990, retry_delay := 10\<rparr>)
             + retry_delay (SVServerState_init\<lparr>last_try := 99990, retry_delay := 10\<rparr>) \<le> 100000))"
  by (simp add: can_retry_def is_blacklisted_def ONE_DAY_def SVServerState_init_def)

text \<open>
  C1. The constructor of \<^verbatim>\<open>DisconnectSessionError\<close> called with
  \<^verbatim>\<open>blacklist=True\<close> yields an exception whose \<^verbatim>\<open>blacklist\<close> attribute is
  \<^verbatim>\<open>False\<close>, so \<^verbatim>\<open>connect\<close> disconnects without blacklisting the server.
\<close>

theorem disconnect_error_drops_blacklist:
  "blacklist (DisconnectSessionError_init ''server.version failed'' True) = False
   \<and> last_blacklisted
        (connect 1000 (RunRaisedDisconnect False (DisconnectSessionError_init ''server.version failed'' True))
           1001 SVServerState_init) = 0"
  by (simp add: DisconnectSessionError_init_def connect_def established_def disconnect_def
      SVServerState_init_def Let_def)

section \<open>The round trip through JSON\<close>

lemma py_int_id: "(of_int (py_int x) = x) = (x \<in> \<int>)"
  by (auto simp add: py_int_def Ints_def)

text \<open>
  C9. As amended: \<^verbatim>\<open>from_json(to_json(s))\<close> holds each of the three timestamps
  of \<open>s\<close> truncated towards zero, so a timestamp is preserved exactly when it is a whole
  number.
\<close>

theorem json_round_trip_truncates:
  "last_try (from_json (to_json s)) = of_int (py_int (last_try s))
   \<and> last_good (from_json (to_json s)) = of_int (py_int (last_good s))
   \<and> last_blacklisted (from_json (to_json s)) = of_int (py_int (last_blacklisted s))
   \<and> (last_try (from_json (to_json s)) = last_try s) = (last_try s \<in> \<int>)
   \<and> (last_good (from_json (to_json s)) = last_good s) = (last_good s \<in> \<int>)
   \<and> (last_blacklisted (from_json (to_json s)) = last_blacklisted s) = (last_blacklisted s \<in> \<int>)"
  by (simp add: from_json_def to_json_def SVServerState_init_def py_int_id)

text \<open>The claim as stated fails for the timestamp 1.5.\<close>

theorem json_round_trip_counterexample:
  "last_try (from_json (to_json (SVServerState_init\<lparr>last_try := 3 / 2\<rparr>)))
     \<noteq> last_try (SVServerState_init\<lparr>last_try := 3 / 2\<rparr>)"
  by (simp add: from_json_def to_json_def SVServerState_init_def py_int_def)

section \<open>The checkpoint argument of a chunk request\<close>

text \<open>
  C2. As amended: the \<^verbatim>\<open>cp_height\<close> argument is the checkpoint height when
  \<open>height + count < checkpoint height\<close> (the range ends at least two below the
  checkpoint) and 0 otherwise.
\<close>

theorem request_chunk_cp_height:
  "request_chunk_args cp height count =
     (height, count, if height + count < cp then cp else 0)
   \<and> (snd (snd (request_chunk_args cp height count)) = cp) = (height + count < cp \<or> cp = 0)"
  by (auto simp add: request_chunk_args_def Let_def)

text \<open>
  The claim as stated fails for a range that ends at the checkpoint: checkpoint 100,
  height 90, count 11.
\<close>

theorem request_chunk_cp_height_counterexample:
  "(90::int) + 11 - 1 \<le> 100 \<and> snd (snd (request_chunk_args 100 90 11)) \<noteq> 100"
  by (simp add: request_chunk_args_def Let_def)

section \<open>The lagging check\<close>

lemma tip_heights_all:
  "\<forall>s\<in>set ss. tip_height s \<noteq> None \<Longrightarrow> tip_heights ss = Inr (List.map_filter tip_height ss)"
proof (induction ss)
  case Nil
  show ?case by (simp add: List.map_filter_simps)
next
  case (Cons a ss)
  from Cons.prems obtain h where h: "tip_height a = Some h" by auto
  from Cons.prems have "\<forall>s\<in>set ss. tip_height s \<noteq> None" by simp
  then have "tip_heights ss = Inr (List.map_filter tip_height ss)" by (rule Cons.IH)
  with h show ?case by (simp add: List.map_filter_simps)
qed

lemma tip_heights_none:
  "\<exists>s\<in>set ss. tip_height s = None \<Longrightarrow> tip_heights ss = Inl AttributeError"
proof (induction ss)
  case Nil
  then show ?case by simp
next
  case (Cons a ss)
  show ?case
  proof (cases "tip_height a")
    case None
    then show ?thesis by simp
  next
    case (Some h)
    with Cons.prems have "\<exists>s\<in>set ss. tip_height s = None" by auto
    then have "tip_heights ss = Inl AttributeError" by (rule Cons.IH)
    with Some show ?thesis by simp
  qed
qed

lemma mark_good_at:
  "\<forall>s\<in>set ss. tip_height s \<noteq> None \<Longrightarrow>
   mark_good now mh ss st =
     Inr (\<lambda>k. if \<exists>s\<in>set ss. server s = k \<and> (\<exists>h. tip_height s = Some h \<and> mh - 2 < h)
              then (st k)\<lparr>last_good := now\<rparr> else st k)"
proof (induction ss arbitrary: st)
  case Nil
  show ?case by simp
next
  case (Cons a ss)
  from Cons.prems obtain h where h: "tip_height a = Some h" by auto
  from Cons.prems have r: "\<forall>s\<in>set ss. tip_height s \<noteq> None" by simp
  show ?case
  proof (cases "mh - 2 < h")
    case True
    have "mark_good now mh (a # ss) st =
        mark_good now mh ss (st(server a := (st (server a))\<lparr>last_good := now\<rparr>))"
      using h True by simp
    also have "\<dots> = Inr (\<lambda>k. if \<exists>s\<in>set ss. server s = k \<and> (\<exists>h. tip_height s = Some h \<and> mh - 2 < h)
              then ((st(server a := (st (server a))\<lparr>last_good := now\<rparr>)) k)\<lparr>last_good := now\<rparr>
              else (st(server a := (st (server a))\<lparr>last_good := now\<rparr>)) k)"
      by (rule Cons.IH [OF r])
    also have "\<dots> = Inr (\<lambda>k. if \<exists>s\<in>set (a # ss). server s = k \<and> (\<exists>h. tip_height s = Some h \<and> mh - 2 < h)
              then (st k)\<lparr>last_good := now\<rparr> else st k)"
      using h True by (auto simp add: fun_eq_iff)
    finally show ?thesis .
  next
    case False
    have "mark_good now mh (a # ss) st = mark_good now mh ss st"
      using h False by simp
    also have "\<dots> = Inr (\<lambda>k. if \<exists>s\<in>set ss. server s = k \<and> (\<exists>h. tip_height s = Some h \<and> mh - 2 < h)
              then (st k)\<lparr>last_good := now\<rparr> else st k)"
      by (rule Cons.IH [OF r])
    also have "\<dots> = Inr (\<lambda>k. if \<exists>s\<in>set (a # ss). server s = k \<and> (\<exists>h. tip_height s = Some h \<and> mh - 2 < h)
              then (st k)\<lparr>last_good := now\<rparr> else st k)"
      using h False by (auto simp add: fun_eq_iff)
    finally show ?thesis .
  qed
qed

lemma max_default_Max:
  "xs \<noteq> [] \<longrightarrow> max_default d xs = Max (set xs)"
proof (cases xs)
  case Nil
  then show ?thesis by simp
next
  case (Cons x r)
  have "Max (set (x # r)) = fold max r x"
    by (rule Max.set_eq_fold)
  with Cons show ?thesis
    by (simp add: max_default_def)
qed

lemma maybe_switch_store:
  "\<forall>s\<in>set sessions. tip_height s \<noteq> None \<Longrightarrow>
   \<exists>act. maybe_switch_main_server now ac ms sessions st =
     Inr (\<lambda>k. if \<exists>s\<in>set sessions. server s = k \<and>
                   (\<exists>h. tip_height s = Some h \<and>
                        max_default 0 (List.map_filter tip_height sessions) - 2 < h)
               then (st k)\<lparr>last_good := now\<rparr> else st k, act)"
  by (simp add: maybe_switch_main_server_def tip_heights_all mark_good_at Let_def)

text \<open>
  C5. As amended: on every run of \<^verbatim>\<open>_maybe_switch_main_server\<close> in which every
  session has a tip, with \<open>max_height\<close> the greatest tip height of the sessions (0 when
  there are none), the run returns, the server of every session with
  \<open>max_height - tip height < 2\<close> has \<^verbatim>\<open>last_good\<close> set to the current time, and
  a server all of whose sessions are two or more blocks behind keeps its state.
\<close>

theorem lagging_check_marks_within_one:
  "(\<forall>s\<in>set sessions. tip_height s \<noteq> None) \<longrightarrow>
     (case maybe_switch_main_server now ac ms sessions st of
        Inl e \<Rightarrow> False
      | Inr r \<Rightarrow>
          (\<forall>s\<in>set sessions. \<forall>h. tip_height s = Some h \<longrightarrow>
              max_default 0 (List.map_filter tip_height sessions) - h < 2 \<longrightarrow>
              last_good (fst r (server s)) = now)
          \<and> (\<forall>k. (\<forall>s\<in>set sessions. \<forall>h. server s = k \<longrightarrow> tip_height s = Some h \<longrightarrow>
                      2 \<le> max_default 0 (List.map_filter tip_height sessions) - h) \<longrightarrow>
                  fst r k = st k))
     \<and> (sessions \<noteq> [] \<longrightarrow>
          max_default 0 (List.map_filter tip_height sessions)
            = Max (set (List.map_filter tip_height sessions)))"
proof
  assume all: "\<forall>s\<in>set sessions. tip_height s \<noteq> None"
  let ?mh = "max_default 0 (List.map_filter tip_height sessions)"
  let ?f = "\<lambda>k. if \<exists>s\<in>set sessions. server s = k \<and> (\<exists>h. tip_height s = Some h \<and> ?mh - 2 < h)
               then (st k)\<lparr>last_good := now\<rparr> else st k"
  from maybe_switch_store [OF all, where now = now and ac = ac and ms = ms and st = st]
  obtain act where r: "maybe_switch_main_server now ac ms sessions st = Inr (?f, act)"
    by (elim exE)
  have a: "\<forall>s\<in>set sessions. \<forall>h. tip_height s = Some h \<longrightarrow> ?mh - h < 2 \<longrightarrow>
              last_good (?f (server s)) = now"
  proof (intro ballI allI impI)
    fix s h assume s: "s \<in> set sessions" and h: "tip_height s = Some h" and c: "?mh - h < 2"
    from c have "?mh - 2 < h" by simp
    with s h have "\<exists>s'\<in>set sessions. server s' = server s \<and> (\<exists>h. tip_height s' = Some h \<and> ?mh - 2 < h)"
      by (intro bexI [of _ s]) simp_all
    then show "last_good (?f (server s)) = now" by simp
  qed
  have b: "\<forall>k. (\<forall>s\<in>set sessions. \<forall>h. server s = k \<longrightarrow> tip_height s = Some h \<longrightarrow> 2 \<le> ?mh - h) \<longrightarrow>
                  ?f k = st k"
  proof (intro allI impI)
    fix k assume g: "\<forall>s\<in>set sessions. \<forall>h. server s = k \<longrightarrow> tip_height s = Some h \<longrightarrow> 2 \<le> ?mh - h"
    have "\<not> (\<exists>s\<in>set sessions. server s = k \<and> (\<exists>h. tip_height s = Some h \<and> ?mh - 2 < h))"
    proof
      assume "\<exists>s\<in>set sessions. server s = k \<and> (\<exists>h. tip_height s = Some h \<and> ?mh - 2 < h)"
      then obtain s h where "s \<in> set sessions" "server s = k" "tip_height s = Some h" "?mh - 2 < h"
        by (elim bexE conjE exE)
      with g have "2 \<le> ?mh - h" "?mh - 2 < h" by simp_all
      then show False by simp
    qed
    then show "?f k = st k" by (simp only: if_False)
  qed
  have c: "sessions \<noteq> [] \<longrightarrow> ?mh = Max (set (List.map_filter tip_height sessions))"
  proof
    assume "sessions \<noteq> []"
    then obtain a ss where e: "sessions = a # ss" by (cases sessions) simp_all
    with all obtain h where "tip_height a = Some h" by auto
    with e have "List.map_filter tip_height sessions \<noteq> []"
      by (simp add: List.map_filter_simps)
    with max_default_Max [of "List.map_filter tip_height sessions" 0]
    show "?mh = Max (set (List.map_filter tip_height sessions))" by simp
  qed
  from a b c show "(case maybe_switch_main_server now ac ms sessions st of
        Inl e \<Rightarrow> False
      | Inr r \<Rightarrow>
          (\<forall>s\<in>set sessions. \<forall>h. tip_height s = Some h \<longrightarrow> ?mh - h < 2 \<longrightarrow>
              last_good (fst r (server s)) = now)
          \<and> (\<forall>k. (\<forall>s\<in>set sessions. \<forall>h. server s = k \<longrightarrow> tip_height s = Some h \<longrightarrow>
                      2 \<le> ?mh - h) \<longrightarrow>
                  fst r k = st k))
     \<and> (sessions \<noteq> [] \<longrightarrow> ?mh = Max (set (List.map_filter tip_height sessions)))"
    by (simp only: r sum.case fst_conv simp_thms)
qed

theorem lagging_check_marks_within_one_witness:
  "(case maybe_switch_main_server 1000 True (Some (''a'', 50002, ''s''))
       [\<lparr>server = (''a'', 50002, ''s''), tip_height = Some 700010, ptuple = [1, 4]\<rparr>,
        \<lparr>server = (''b'', 50002, ''s''), tip_height = Some 700012, ptuple = [1, 4]\<rparr>,
        \<lparr>server = (''c'', 50002, ''s''), tip_height = Some 700011, ptuple = [1, 4]\<rparr>]
       (\<lambda>k. SVServerState_init) of
      Inl e \<Rightarrow> False
    | Inr r \<Rightarrow> last_good (fst r (''c'', 50002, ''s'')) = 1000
        \<and> fst r (''a'', 50002, ''s'') = SVServerState_init)"
proof -
  let ?ss = "[\<lparr>server = (''a'', 50002, ''s''), tip_height = Some 700010, ptuple = [1, 4]\<rparr>,
        \<lparr>server = (''b'', 50002, ''s''), tip_height = Some 700012, ptuple = [1, 4]\<rparr>,
        \<lparr>server = (''c'', 50002, ''s''), tip_height = Some 700011, ptuple = [1, 4]\<rparr>]"
  have 1: "\<forall>s\<in>set ?ss. tip_height s \<noteq> None" by simp
  have 2: "max_default 0 (List.map_filter tip_height ?ss) = 700012"
    by (simp add: List.map_filter_simps max_default_def)
  from lagging_check_marks_within_one [where sessions = ?ss and now = 1000 and ac = True
      and ms = "Some (''a'', 50002, ''s'')" and st = "\<lambda>k. SVServerState_init"] 1
  have 3: "(case maybe_switch_main_server 1000 True (Some (''a'', 50002, ''s'')) ?ss (\<lambda>k. SVServerState_init) of
        Inl e \<Rightarrow> False
      | Inr r \<Rightarrow>
          (\<forall>s\<in>set ?ss. \<forall>h. tip_height s = Some h \<longrightarrow>
              max_default 0 (List.map_filter tip_height ?ss) - h < 2 \<longrightarrow>
              last_good (fst r (server s)) = 1000)
          \<and> (\<forall>k. (\<forall>s\<in>set ?ss. \<forall>h. server s = k \<longrightarrow> tip_height s = Some h \<longrightarrow>
                      2 \<le> max_default 0 (List.map_filter tip_height ?ss) - h) \<longrightarrow>
                  fst r k = SVServerState_init))"
    by (simp only: simp_thms)
  show ?thesis
  proof (cases "maybe_switch_main_server 1000 True (Some (''a'', 50002, ''s'')) ?ss (\<lambda>k. SVServerState_init)")
    case (Inl e)
    with 3 show ?thesis by simp
  next
    case (Inr r)
    with 3 have m: "\<forall>s\<in>set ?ss. \<forall>h. tip_height s = Some h \<longrightarrow>
              max_default 0 (List.map_filter tip_height ?ss) - h < 2 \<longrightarrow>
              last_good (fst r (server s)) = 1000"
      and u: "\<forall>k. (\<forall>s\<in>set ?ss. \<forall>h. server s = k \<longrightarrow> tip_height s = Some h \<longrightarrow>
                      2 \<le> max_default 0 (List.map_filter tip_height ?ss) - h) \<longrightarrow>
                  fst r k = SVServerState_init"
      by simp_all
    from m have "last_good (fst r (''c'', 50002, ''s'')) = 1000"
      unfolding 2 by simp
    moreover have "fst r (''a'', 50002, ''s'') = SVServerState_init"
    proof -
      have q: "\<forall>s\<in>set ?ss. \<forall>h. server s = (''a'', 50002, ''s'') \<longrightarrow> tip_height s = Some h \<longrightarrow>
                      2 \<le> max_default 0 (List.map_filter tip_height ?ss) - h"
        unfolding 2 by simp
      show ?thesis
        by (rule u [THEN spec, THEN mp, OF q])
    qed
    ultimately show ?thesis using Inr by simp
  qed
qed

text \<open>
  The claim as stated fails for a session exactly two blocks behind: its server is not
  refreshed.
\<close>

theorem lagging_check_counterexample:
  "max_default 0 (List.map_filter tip_height
       [\<lparr>server = (''a'', 50002, ''s''), tip_height = Some 700010, ptuple = [1, 4]\<rparr>,
        \<lparr>server = (''b'', 50002, ''s''), tip_height = Some 700012, ptuple = [1, 4]\<rparr>]) - 700010 \<le> 2
   \<and> (case maybe_switch_main_server 1000 True (Some (''a'', 50002, ''s''))
       [\<lparr>server = (''a'', 50002, ''s''), tip_height = Some 700010, ptuple = [1, 4]\<rparr>,
        \<lparr>server = (''b'', 50002, ''s''), tip_height = Some 700012, ptuple = [1, 4]\<rparr>]
       (\<lambda>k. SVServerState_init) of
        Inl e \<Rightarrow> False
      | Inr r \<Rightarrow> last_good (fst r (''a'', 50002, ''s'')) \<noteq> 1000)"
  by (simp add: maybe_switch_main_server_def max_default_def List.map_filter_simps
      SVServerState_init_def Let_def)

text \<open>
  X4. A run of \<^verbatim>\<open>_maybe_switch_main_server\<close> while some session has no tip raises
  \<^verbatim>\<open>AttributeError\<close>, before any server is refreshed.
\<close>

theorem lagging_check_without_tip:
  "(\<exists>s\<in>set sessions. tip_height s = None) \<longrightarrow>
   maybe_switch_main_server now ac ms sessions st = Inl AttributeError"
  by (simp add: maybe_switch_main_server_def tip_heights_none)

theorem lagging_check_without_tip_witness:
  "maybe_switch_main_server 1000 True (Some (''a'', 50002, ''s''))
       [\<lparr>server = (''a'', 50002, ''s''), tip_height = Some 700010, ptuple = [1, 4]\<rparr>,
        \<lparr>server = (''b'', 50002, ''s''), tip_height = None, ptuple = [1, 4]\<rparr>]
       (\<lambda>k. SVServerState_init) = Inl AttributeError"
proof -
  let ?ss = "[\<lparr>server = (''a'', 50002, ''s''), tip_height = Some 700010, ptuple = [1, 4]\<rparr>,
        \<lparr>server = (''b'', 50002, ''s''), tip_height = None, ptuple = [1, 4]\<rparr>]"
  have 1: "\<exists>s\<in>set ?ss. tip_height s = None" by simp
  from lagging_check_without_tip [where sessions = ?ss and now = 1000 and ac = True
      and ms = "Some (''a'', 50002, ''s'')" and st = "\<lambda>k. SVServerState_init"] 1
  show ?thesis by (simp only: simp_thms)
qed

section \<open>Interning a server\<close>

text \<open>
  C8. \<^verbatim>\<open>SVServer.unique\<close> called with the empty protocol string, or with
  \<^verbatim>\<open>'st'\<close>, raises nothing: it creates and interns the server. (A protocol such
  as \<^verbatim>\<open>'x'\<close> is refused.)
\<close>

theorem unique_accepts_unsupported_protocol:
  "unique parse [] ''electrum.example'' (PortInt 50002) [] =
     Inr ([((''electrum.example'', 50002, []),
            \<lparr>host = ''electrum.example'', port = 50002, protocol = [], state = SVServerState_init\<rparr>)],
          \<lparr>host = ''electrum.example'', port = 50002, protocol = [], state = SVServerState_init\<rparr>)
   \<and> unique parse [] ''electrum.example'' (PortInt 50002) ''st'' =
     Inr ([((''electrum.example'', 50002, ''st''),
            \<lparr>host = ''electrum.example'', port = 50002, protocol = ''st'', state = SVServerState_init\<rparr>)],
          \<lparr>host = ''electrum.example'', port = 50002, protocol = ''st'', state = SVServerState_init\<rparr>)
   \<and> unique parse [] ''electrum.example'' (PortInt 50002) ''x'' = Inl (UnknownProtocol ''x'')"
  by (simp add: unique_def SVServer_init_def Let_def)

section \<open>Subscribing and unsubscribing\<close>

lemma subscribe_loop_subs:
  "fst (subscribe_loop pairs (subs, amap, out)) = subs @ map snd pairs"
  by (induction pairs arbitrary: subs amap out) auto

lemma len_set_distinct:
  "(length (remdups xs) = length xs) = distinct xs"
  by (simp add: length_remdups_eq remdups_id_iff_distinct)

lemma subscribe_to_pairs_subs:
  "wallet_subs (snd (subscribe_to_pairs w pairs st)) w = wallet_subs st w @ map snd pairs"
proof -
  let ?sbw = "if map_of (subs_by_wallet st) w = None
              then AList.update w [] (subs_by_wallet st) else subs_by_wallet st"
  let ?subs = "case map_of ?sbw w of Some l \<Rightarrow> l | None \<Rightarrow> []"
  obtain subs' amap' out' where
    l: "subscribe_loop pairs (?subs, address_map st, sent st) = (subs', amap', out')"
    by (cases "subscribe_loop pairs (?subs, address_map st, sent st)")
  have s: "subs' = ?subs @ map snd pairs"
    using subscribe_loop_subs [of pairs ?subs "address_map st" "sent st"] l by simp
  have e: "?subs = wallet_subs st w"
    by (simp add: wallet_subs_def update_conv')
  have "wallet_subs (snd (subscribe_to_pairs w pairs st)) w = subs'"
    using l by (simp add: subscribe_to_pairs_def Let_def wallet_subs_def update_conv')
  with s e show ?thesis by simp
qed

lemma subscribe_to_pairs_result:
  "fst (subscribe_to_pairs w pairs st) =
     (if distinct (wallet_subs (snd (subscribe_to_pairs w pairs st)) w) then Inr () else Inl AssertionError)"
proof -
  let ?sbw = "if map_of (subs_by_wallet st) w = None
              then AList.update w [] (subs_by_wallet st) else subs_by_wallet st"
  let ?subs = "case map_of ?sbw w of Some l \<Rightarrow> l | None \<Rightarrow> []"
  obtain subs' amap' out' where
    l: "subscribe_loop pairs (?subs, address_map st, sent st) = (subs', amap', out')"
    by (cases "subscribe_loop pairs (?subs, address_map st, sent st)")
  have a: "wallet_subs (snd (subscribe_to_pairs w pairs st)) w = subs'"
    using l by (simp add: subscribe_to_pairs_def Let_def wallet_subs_def update_conv')
  have b: "fst (subscribe_to_pairs w pairs st) =
     (if length (remdups subs') = length subs' then Inr () else Inl AssertionError)"
    using l by (simp add: subscribe_to_pairs_def Let_def)
  show ?thesis
    unfolding a b len_set_distinct ..
qed

text \<open>
  C10. As amended: if the wallet's list has no duplicates before the call, the script
  hashes of \<open>pairs\<close> are pairwise distinct and none of them is in the wallet's list,
  then \<^verbatim>\<open>subscribe_to_pairs\<close> leaves the list without duplicates and its final
  assertion holds.
\<close>

theorem subscribe_to_pairs_no_duplicates:
  assumes "distinct (map snd pairs)"
    and "set (map snd pairs) \<inter> set (wallet_subs st w) = {}"
    and "distinct (wallet_subs st w)"
  shows "fst (subscribe_to_pairs w pairs st) = Inr ()
    \<and> distinct (wallet_subs (snd (subscribe_to_pairs w pairs st)) w)
    \<and> wallet_subs (snd (subscribe_to_pairs w pairs st)) w = wallet_subs st w @ map snd pairs"
proof -
  have d: "distinct (wallet_subs st w @ map snd pairs)"
    using assms by auto
  then have d': "distinct (wallet_subs (snd (subscribe_to_pairs w pairs st)) w)"
    by (simp only: subscribe_to_pairs_subs)
  then have "fst (subscribe_to_pairs w pairs st) = Inr ()"
    by (simp only: subscribe_to_pairs_result if_True)
  with d' show ?thesis
    by (simp only: subscribe_to_pairs_subs simp_thms)
qed

theorem subscribe_to_pairs_no_duplicates_witness:
  "fst (subscribe_to_pairs 1 [(''addr2'', ''B''), (''addr3'', ''C'')]
         \<lparr>subs_by_wallet = [(1, [''A''])], address_map = [(''A'', ''addr1'')], sent = []\<rparr>) = Inr ()
   \<and> wallet_subs (snd (subscribe_to_pairs 1 [(''addr2'', ''B''), (''addr3'', ''C'')]
         \<lparr>subs_by_wallet = [(1, [''A''])], address_map = [(''A'', ''addr1'')], sent = []\<rparr>)) 1
       = [''A'', ''B'', ''C'']"
proof -
  let ?st = "\<lparr>subs_by_wallet = [(1, [''A''])], address_map = [(''A'', ''addr1'')], sent = []\<rparr>"
  let ?pairs = "[(''addr2'', ''B''), (''addr3'', ''C'')]"
  have 1: "distinct (map snd ?pairs)" by simp
  have 2: "set (map snd ?pairs) \<inter> set (wallet_subs ?st 1) = {}"
    by (simp add: wallet_subs_def)
  have 3: "distinct (wallet_subs ?st 1)"
    by (simp add: wallet_subs_def)
  have 4: "wallet_subs ?st 1 @ map snd ?pairs = [''A'', ''B'', ''C'']"
    by (simp add: wallet_subs_def)
  show ?thesis
    using subscribe_to_pairs_no_duplicates [OF 1 2 3] 4 by simp
qed

text \<open>
  The claim as stated fails after a call whose assertion failed: that call leaves the
  duplicates in the list, and the next call, with one fresh script hash, fails too.
\<close>

theorem subscribe_to_pairs_counterexample:
  "distinct (map snd [(''addr2'', ''B'')])
   \<and> set (map snd [(''addr2'', ''B'')]) \<inter>
       set (wallet_subs (snd (subscribe_to_pairs 1 [(''addr1'', ''A''), (''addr1'', ''A'')]
              \<lparr>subs_by_wallet = [], address_map = [], sent = []\<rparr>)) 1) = {}
   \<and> fst (subscribe_to_pairs 1 [(''addr2'', ''B'')]
        (snd (subscribe_to_pairs 1 [(''addr1'', ''A''), (''addr1'', ''A'')]
              \<lparr>subs_by_wallet = [], address_map = [], sent = []\<rparr>))) = Inl AssertionError
   \<and> wallet_subs (snd (subscribe_to_pairs 1 [(''addr2'', ''B'')]
        (snd (subscribe_to_pairs 1 [(''addr1'', ''A''), (''addr1'', ''A'')]
              \<lparr>subs_by_wallet = [], address_map = [], sent = []\<rparr>)))) 1 = [''A'', ''A'', ''B'']"
  by (simp add: subscribe_to_pairs_def wallet_subs_def Let_def)

text \<open>
  C6. \<^verbatim>\<open>unsubscribe_from_pairs\<close> on a session whose \<^verbatim>\<open>ptuple\<close> is
  \<open>(1, 4)\<close>, below \<open>(1, 4, 2)\<close>, sends the unsubscribe request;
  \<^verbatim>\<open>unsubscribe_wallet\<close> in the same state with the same session sends none.
\<close>

theorem unsubscribe_from_pairs_ignores_ptuple:
  "tuple_less [1, 4] [1, 4, 2]
   \<and> sent (snd (unsubscribe_from_pairs
        \<lparr>server = (''a'', 50002, ''s''), tip_height = Some 700010, ptuple = [1, 4]\<rparr> 1 [(''addr'', ''S'')]
        \<lparr>subs_by_wallet = [(1, [''S''])], address_map = [(''S'', ''addr'')], sent = []\<rparr>))
     = [Unsubscribe ''S'']
   \<and> sent (unsubscribe_wallet 1
        (Some \<lparr>server = (''a'', 50002, ''s''), tip_height = Some 700010, ptuple = [1, 4]\<rparr>)
        \<lparr>subs_by_wallet = [(1, [''S''])], address_map = [(''S'', ''addr'')], sent = []\<rparr>)
     = []"
  by (simp add: unsubscribe_from_pairs_def unsubscribe_wallet_def get_exclusive_set_def Let_def)

subsection \<open>What an unsubscribe request implies\<close>

lemma exclusive_loop_set:
  "set (exclusive_loop w items ss) =
     {sh \<in> set ss. \<forall>item\<in>set items. fst item \<noteq> w \<longrightarrow> sh \<notin> set (snd item)}"
proof (induction items arbitrary: ss)
  case Nil
  show ?case by simp
next
  case (Cons item items)
  obtain ow osubs where i: "item = (ow, osubs)" by (cases item)
  show ?case
  proof (cases "ow = w")
    case True
    then show ?thesis by (simp add: i Cons.IH)
  next
    case False
    then show ?thesis by (auto simp add: i Cons.IH)
  qed
qed

lemma exclusive_set_alt:
  "set (get_exclusive_set sbw w subs) =
     {sh \<in> set subs. \<forall>item\<in>set sbw. fst item \<noteq> w \<longrightarrow> sh \<notin> set (snd item)}"
  by (simp add: get_exclusive_set_def exclusive_loop_set)

lemma unsubscribe_loop_step:
  "unsubscribe_loop ex ((address, sh) # pairs) (subs, amap, out) =
     (if sh \<in> set ex \<and> sh \<in> set subs
      then (if map_of amap sh = None then (Inl KeyError, remove1 sh subs, amap, out)
            else unsubscribe_loop ex pairs
                   (remove1 sh subs, AList.delete sh amap, out @ [Unsubscribe sh]))
      else unsubscribe_loop ex pairs (subs, amap, out))"
  by simp

lemma unsubscribe_loop_sent:
  "unsubscribe_loop ex pairs (subs, amap, out) = (r, subs', amap', out') \<Longrightarrow>
   \<exists>new. out' = out @ map Unsubscribe new \<and> set new \<subseteq> set ex \<inter> set subs"
proof (induction pairs arbitrary: subs amap out)
  case Nil
  from Nil have "out' = out"
    by simp
  then have "out' = out @ map Unsubscribe [] \<and> set [] \<subseteq> set ex \<inter> set subs"
    by simp
  then show ?case by (rule exI)
next
  case (Cons p pairs)
  obtain address sh where p: "p = (address, sh)" by (cases p)
  note prem = Cons.prems [unfolded p unsubscribe_loop_step]
  show ?case
  proof (cases "sh \<in> set ex \<and> sh \<in> set subs")
    case False
    from prem False
    have "unsubscribe_loop ex pairs (subs, amap, out) = (r, subs', amap', out')"
      by (simp only: if_False)
    then show ?thesis by (rule Cons.IH)
  next
    case True
    show ?thesis
    proof (cases "map_of amap sh = None")
      case N: True
      from prem True N have "(Inl KeyError, remove1 sh subs, amap, out) = (r, subs', amap', out')"
        by (simp only: if_True simp_thms)
      then have "out' = out @ map Unsubscribe [] \<and> set [] \<subseteq> set ex \<inter> set subs"
        by simp
      then show ?thesis by (rule exI)
    next
      case N: False
      from prem True N have "unsubscribe_loop ex pairs
          (remove1 sh subs, AList.delete sh amap, out @ [Unsubscribe sh]) = (r, subs', amap', out')"
        by (simp only: if_True if_False simp_thms)
      from Cons.IH [OF this]
      obtain new where n: "out' = (out @ [Unsubscribe sh]) @ map Unsubscribe new"
        and m: "set new \<subseteq> set ex \<inter> set (remove1 sh subs)"
        by (elim exE conjE)
      have "set (remove1 sh subs) \<subseteq> set subs"
        by (rule set_remove1_subset)
      with m True have s: "set (sh # new) \<subseteq> set ex \<inter> set subs"
        by auto
      from n have "out' = out @ map Unsubscribe (sh # new)"
        by simp
      with s have "out' = out @ map Unsubscribe (sh # new) \<and> set (sh # new) \<subseteq> set ex \<inter> set subs"
        by (rule conjI [rotated])
      then show ?thesis by (rule exI)
    qed
  qed
qed

text \<open>
  X1. A \<^verbatim>\<open>blockchain.scripthash.unsubscribe\<close> request that
  \<^verbatim>\<open>unsubscribe_from_pairs(wallet, pairs)\<close> newly sends is for a script hash in the
  wallet's list that no other wallet's list holds.
\<close>

theorem unsubscribe_from_pairs_exclusive:
  assumes "Unsubscribe sh \<in> set (sent (snd (unsubscribe_from_pairs self w pairs st)))"
    and "Unsubscribe sh \<notin> set (sent st)"
  shows "sh \<in> set (wallet_subs st w)
     \<and> (\<forall>item\<in>set (subs_by_wallet st). fst item \<noteq> w \<longrightarrow> sh \<notin> set (snd item))"
proof (cases "map_of (subs_by_wallet st) w")
  case None
  with assms show ?thesis
    by (simp add: unsubscribe_from_pairs_def)
next
  case (Some subs)
  let ?ex = "get_exclusive_set (subs_by_wallet st) w subs"
  obtain r subs' amap' out' where
    l: "unsubscribe_loop ?ex pairs (subs, address_map st, sent st) = (r, subs', amap', out')"
    using prod_cases4 by blast
  from unsubscribe_loop_sent [OF l]
  obtain new where n: "out' = sent st @ map Unsubscribe new" and m: "set new \<subseteq> set ?ex \<inter> set subs"
    by (elim exE conjE)
  have "sent (snd (unsubscribe_from_pairs self w pairs st)) = out'"
    using Some l by (simp add: unsubscribe_from_pairs_def)
  with assms n have "sh \<in> set new" by auto
  with m have "sh \<in> set ?ex" by auto
  then have "sh \<in> set subs \<and>
      (\<forall>item\<in>set (subs_by_wallet st). fst item \<noteq> w \<longrightarrow> sh \<notin> set (snd item))"
    by (simp add: exclusive_set_alt)
  with Some show ?thesis by (simp add: wallet_subs_def)
qed

theorem unsubscribe_from_pairs_exclusive_witness:
  "''S'' \<in> set (wallet_subs
        \<lparr>subs_by_wallet = [(1, [''S'', ''T'']), (2, [''T''])],
           address_map = [(''S'', ''a''), (''T'', ''b'')], sent = []\<rparr> 1)
   \<and> ''S'' \<notin> set [''T'']"
proof -
  let ?st = "\<lparr>subs_by_wallet = [(1, [''S'', ''T'']), (2, [''T''])],
           address_map = [(''S'', ''a''), (''T'', ''b'')], sent = []\<rparr>"
  let ?self = "\<lparr>server = (''h'', 50002, ''s''), tip_height = Some 1, ptuple = [1, 4, 2]\<rparr>"
  have 1: "Unsubscribe ''S'' \<in> set (sent (snd (unsubscribe_from_pairs ?self 1
      [(''a'', ''S''), (''b'', ''T'')] ?st)))"
    by (simp add: unsubscribe_from_pairs_def get_exclusive_set_def)
  have 2: "Unsubscribe ''S'' \<notin> set (sent ?st)" by simp
  from unsubscribe_from_pairs_exclusive [OF 1 2] show ?thesis by simp
qed

text \<open>
  X2. A request that \<^verbatim>\<open>unsubscribe_wallet(wallet, session)\<close> newly sends is
  sent on a session whose \<^verbatim>\<open>ptuple\<close> is not below \<open>(1, 4, 2)\<close>, for a script
  hash in the wallet's list that no other wallet's list holds.
\<close>

theorem unsubscribe_wallet_gated:
  assumes "Unsubscribe sh \<in> set (sent (unsubscribe_wallet w session st))"
    and "Unsubscribe sh \<notin> set (sent st)"
  shows "(case session of None \<Rightarrow> False | Some sess \<Rightarrow> \<not> tuple_less (ptuple sess) [1, 4, 2])
     \<and> sh \<in> set (wallet_subs st w)
     \<and> (\<forall>item\<in>set (subs_by_wallet st). fst item \<noteq> w \<longrightarrow> sh \<notin> set (snd item))"
proof (cases "map_of (subs_by_wallet st) w")
  case None
  with assms show ?thesis by (simp add: unsubscribe_wallet_def)
next
  case S: (Some subs)
  show ?thesis
  proof (cases session)
    case None
    with S assms show ?thesis by (simp add: unsubscribe_wallet_def Let_def)
  next
    case (Some sess)
    let ?ex = "get_exclusive_set (AList.delete w (subs_by_wallet st)) w subs"
    have e: "unsubscribe_wallet w session st =
       (if ?ex = [] then st\<lparr>subs_by_wallet := AList.delete w (subs_by_wallet st)\<rparr>
        else if tuple_less (ptuple sess) [1, 4, 2]
             then st\<lparr>subs_by_wallet := AList.delete w (subs_by_wallet st)\<rparr>
        else st\<lparr>subs_by_wallet := AList.delete w (subs_by_wallet st),
                sent := sent st @ map Unsubscribe ?ex\<rparr>)"
      using S Some by (simp add: unsubscribe_wallet_def Let_def)
    have g: "\<not> tuple_less (ptuple sess) [1, 4, 2]"
    proof
      assume "tuple_less (ptuple sess) [1, 4, 2]"
      with e have "sent (unsubscribe_wallet w session st) = sent st" by simp
      with assms show False by simp
    qed
    have "sh \<in> set ?ex"
    proof (cases "?ex = []")
      case True
      with e have "sent (unsubscribe_wallet w session st) = sent st" by simp
      with assms show ?thesis by simp
    next
      case False
      with e g have "sent (unsubscribe_wallet w session st) = sent st @ map Unsubscribe ?ex"
        by simp
      with assms show ?thesis by auto
    qed
    then have k: "sh \<in> set subs \<and>
        (\<forall>item\<in>set (AList.delete w (subs_by_wallet st)). fst item \<noteq> w \<longrightarrow> sh \<notin> set (snd item))"
      by (simp add: exclusive_set_alt)
    have "\<forall>item\<in>set (subs_by_wallet st). fst item \<noteq> w \<longrightarrow> sh \<notin> set (snd item)"
    proof (intro ballI impI)
      fix item assume i: "item \<in> set (subs_by_wallet st)" and f: "fst item \<noteq> w"
      then have "item \<in> set (AList.delete w (subs_by_wallet st))"
        by (auto simp add: AList.delete_eq)
      with k f show "sh \<notin> set (snd item)" by simp
    qed
    with k g S Some show ?thesis by (simp add: wallet_subs_def)
  qed
qed

theorem unsubscribe_wallet_gated_witness:
  "\<not> tuple_less [1, 4, 2] [1, 4, 2]
   \<and> ''S'' \<in> set (wallet_subs
        \<lparr>subs_by_wallet = [(1, [''S'', ''T'']), (2, [''T''])],
           address_map = [(''S'', ''a''), (''T'', ''b'')], sent = []\<rparr> 1)
   \<and> ''S'' \<notin> set [''T'']"
proof -
  let ?st = "\<lparr>subs_by_wallet = [(1, [''S'', ''T'']), (2, [''T''])],
           address_map = [(''S'', ''a''), (''T'', ''b'')], sent = []\<rparr>"
  let ?sess = "\<lparr>server = (''h'', 50002, ''s''), tip_height = Some 1, ptuple = [1, 4, 2]\<rparr>"
  have 1: "Unsubscribe ''S'' \<in> set (sent (unsubscribe_wallet 1 (Some ?sess) ?st))"
    by (simp add: unsubscribe_wallet_def get_exclusive_set_def Let_def)
  have 2: "Unsubscribe ''S'' \<notin> set (sent ?st)" by simp
  from unsubscribe_wallet_gated [OF 1 2] show ?thesis by simp
qed

text \<open>
  X3. With wallets 1 and 2 both subscribed to S, unsubscribing wallet 1 sends nothing
  and unsubscribing wallet 2 afterwards sends the request for S when the session's
  \<^verbatim>\<open>ptuple\<close> is \<open>(1, 4, 2)\<close>, and nothing when it is \<open>(1, 4)\<close>.
\<close>

theorem unsubscribe_wallet_shared_scenario:
  "sent (unsubscribe_wallet 1
        (Some \<lparr>server = (''h'', 50002, ''s''), tip_height = Some 1, ptuple = [1, 4, 2]\<rparr>)
        \<lparr>subs_by_wallet = [(1, [''S'']), (2, [''S''])], address_map = [(''S'', ''a'')], sent = []\<rparr>) = []
   \<and> sent (unsubscribe_wallet 2
        (Some \<lparr>server = (''h'', 50002, ''s''), tip_height = Some 1, ptuple = [1, 4, 2]\<rparr>)
        (unsubscribe_wallet 1
          (Some \<lparr>server = (''h'', 50002, ''s''), tip_height = Some 1, ptuple = [1, 4, 2]\<rparr>)
          \<lparr>subs_by_wallet = [(1, [''S'']), (2, [''S''])], address_map = [(''S'', ''a'')], sent = []\<rparr>))
       = [Unsubscribe ''S'']
   \<and> sent (unsubscribe_wallet 2
        (Some \<lparr>server = (''h'', 50002, ''s''), tip_height = Some 1, ptuple = [1, 4]\<rparr>)
        (unsubscribe_wallet 1
          (Some \<lparr>server = (''h'', 50002, ''s''), tip_height = Some 1, ptuple = [1, 4]\<rparr>)
          \<lparr>subs_by_wallet = [(1, [''S'']), (2, [''S''])], address_map = [(''S'', ''a'')], sent = []\<rparr>))
       = []"
  by (simp add: unsubscribe_wallet_def get_exclusive_set_def Let_def)

end
